theory Spec2Isabelle
  imports Main "HOL-Library.Multiset"
begin

section \<open>The Tags component of eventsV2 (tags.tsx)\<close>

text \<open>
  The component fetches, for every tag of the event view, the distribution of the tag's
  values, and one total count. Every call of \<open>fetchData\<close> starts a round: it creates a
  fresh Symbol, resets the state and dispatches the fetches; the continuation of each
  fetch merges its result into the state unless another round has started meanwhile.

  The embedding passes the component and its environment explicitly as a \<open>World\<close>:
  \<open>this.props\<close>, \<open>this.state\<close>, the heap of the segment objects that the state refers to,
  the allocator of Symbols, and the trace of the calls the component makes to its
  collaborators.
\<close>

subsection \<open>Data\<close>

text \<open>
  A Symbol is known by its identity only: \<open>Symbol('tagsFetchID')\<close> returns a Symbol that
  is \<open>!==\<close> to every Symbol created before. The identity is a number that the
  allocator hands out. An address names one segment object of the heap.
\<close>

type_synonym symbol = nat
type_synonym addr = nat

text \<open>
  \<open>TagTopValue\<close> and \<open>Tag\<close> come from \<open>./utils\<close>; the component reads \<open>segment.value\<close>,
  writes \<open>segment.url\<close> and reads \<open>tag.topValues\<close>. The field \<open>value\<close> is called
  \<open>tvalue\<close> here, \<open>value\<close> being a command of Isabelle. A url that was never assigned
  is \<open>None\<close>. The array \<open>topValues\<close> holds references to segment objects.
\<close>

record 'u TagTopValue =
  url :: "'u option"
  tvalue :: string

record Tag =
  topValues :: "addr list"

text \<open>
  \<open>type State = {tags: {[key: string]: Tag}; totalValues: null | number;
  tagsFetchID: symbol | undefined}\<close>. The object \<open>tags\<close> is given by its own properties;
  \<open>null\<close> and \<open>undefined\<close> are \<open>None\<close>. The total is a count and no arithmetic is done
  on it.
\<close>

record State =
  tags :: "string \<rightharpoonup> Tag"
  totalValues :: "int option"
  tagsFetchID :: "symbol option"

text \<open>
  Of \<open>Props\<close> the component uses \<open>organization.slug\<close>, \<open>eventView.tags\<close>,
  \<open>eventView.getEventsAPIPayload\<close> and \<open>location\<close>. \<open>'l\<close> is the type of a location
  and \<open>'p\<close> the type of an events API payload.
\<close>

record ('l, 'p) EventView =
  viewTags :: "string list"
  getEventsAPIPayload :: "'l \<Rightarrow> 'p"

record ('l, 'p) Props =
  organization_slug :: string
  eventView :: "('l, 'p) EventView"
  location :: 'l

text \<open>
  The calls that the component makes and that a round is made of, in the order in which
  they are made: the reset \<open>this.setState({tags: {}, totalValues: null, tagsFetchID})\<close>,
  the two kinds of fetch (with the slug, the tag, the query payload, and the Symbol that
  the continuation of the fetch holds), and \<open>Sentry.captureException(err)\<close>.
\<close>

datatype ('q, 'e) call =
    SetStateReset symbol
  | FetchTagDistribution string string 'q symbol
  | FetchTotalCount string 'q symbol
  | CaptureException 'e

record ('l, 'p, 'q, 'u, 'e) World =
  this_props :: "('l, 'p) Props"
  this_state :: State
  heap :: "addr \<Rightarrow> 'u TagTopValue"
  nextSymbol :: nat
  trace :: "('q, 'e) call list"

text \<open>
  \<open>state = {tags: {}, totalValues: null, tagsFetchID: undefined}\<close>: the component as it
  is constructed, in an environment whose heap is \<open>h\<close> and whose next Symbol is \<open>n\<close>.
\<close>

definition initialState :: State where
  "initialState = \<lparr>tags = Map.empty, totalValues = None, tagsFetchID = None\<rparr>"

definition construct ::
  "('l, 'p) Props \<Rightarrow> (addr \<Rightarrow> 'u TagTopValue) \<Rightarrow> nat \<Rightarrow> ('l, 'p, 'q, 'u, 'e) World" where
  "construct p h n =
     \<lparr>this_props = p, this_state = initialState, heap = h, nextSymbol = n, trace = []\<rparr>"

subsection \<open>setState and the continuations of the fetches\<close>

text \<open>
  \<open>this.setState(updater)\<close>: React applies the updaters in the order of the calls, each
  to the state that the updaters before it have left.
\<close>

definition setState ::
  "(State \<Rightarrow> State) \<Rightarrow> ('l, 'p, 'q, 'u, 'e) World \<Rightarrow> ('l, 'p, 'q, 'u, 'e) World" where
  "setState updater w = w\<lparr>this_state := updater (this_state w)\<rparr>"

text \<open>
  The updater of a tag fetch (lines 94 to 104) and of the total fetch (lines 112 to 119);
  \<open>fetchID\<close> is the constant \<open>tagsFetchID\<close> of the call of \<open>fetchData\<close> that dispatched
  the fetch. A Symbol is never \<open>undefined\<close>.
\<close>

definition tagUpdater :: "symbol \<Rightarrow> string \<Rightarrow> Tag \<Rightarrow> State \<Rightarrow> State" where
  "tagUpdater fetchID tag val st =
     (if tagsFetchID st \<noteq> Some fetchID then st
      else st\<lparr>tags := (tags st)(tag \<mapsto> val)\<rparr>)"

definition totalUpdater :: "symbol \<Rightarrow> int \<Rightarrow> State \<Rightarrow> State" where
  "totalUpdater fetchID cnt st =
     (if tagsFetchID st \<noteq> Some fetchID then st
      else st\<lparr>totalValues := Some cnt\<rparr>)"

definition record_call ::
  "('q, 'e) call \<Rightarrow> ('l, 'p, 'q, 'u, 'e) World \<Rightarrow> ('l, 'p, 'q, 'u, 'e) World" where
  "record_call c w = w\<lparr>trace := trace w @ [c]\<rparr>"

definition captureException ::
  "'e \<Rightarrow> ('l, 'p, 'q, 'u, 'e) World \<Rightarrow> ('l, 'p, 'q, 'u, 'e) World" where
  "captureException err w = record_call (CaptureException err) w"

text \<open>
  What follows the \<open>await\<close> of a fetch: the rest of the \<open>try\<close> block when the fetch
  resolves, which is the call of \<open>this.setState\<close> with the updater, and the \<open>catch\<close> block
  when it rejects. The render that React makes of the component after a \<open>setState\<close> is
  not part of these: it is \<open>render\<close> below, and \<open>step\<close> makes it follow.
\<close>

definition tagResolved ::
  "symbol \<Rightarrow> string \<Rightarrow> Tag \<Rightarrow> ('l, 'p, 'q, 'u, 'e) World \<Rightarrow> ('l, 'p, 'q, 'u, 'e) World" where
  "tagResolved fetchID tag val w = setState (tagUpdater fetchID tag val) w"

definition totalResolved ::
  "symbol \<Rightarrow> int \<Rightarrow> ('l, 'p, 'q, 'u, 'e) World \<Rightarrow> ('l, 'p, 'q, 'u, 'e) World" where
  "totalResolved fetchID cnt w = setState (totalUpdater fetchID cnt) w"

definition fetchRejected ::
  "symbol \<Rightarrow> 'e \<Rightarrow> ('l, 'p, 'q, 'u, 'e) World \<Rightarrow> ('l, 'p, 'q, 'u, 'e) World" where
  "fetchRejected fetchID err w = captureException err w"

text \<open>
  An \<open>async\<close> function whose body is \<open>try { await fetch; setState } catch (err)
  { captureException }\<close>: the fetch settles with \<open>Inr\<close> a value or \<open>Inl\<close> an error, and
  the promise of the function itself is fulfilled (\<open>Inr\<close>) or rejected (\<open>Inl\<close>).
\<close>

definition tagFetchSettled ::
  "symbol \<Rightarrow> string \<Rightarrow> 'e + Tag \<Rightarrow> ('l, 'p, 'q, 'u, 'e) World
    \<Rightarrow> 'e + ('l, 'p, 'q, 'u, 'e) World" where
  "tagFetchSettled fetchID tag outcome w =
     (case outcome of
        Inr val \<Rightarrow> Inr (tagResolved fetchID tag val w)
      | Inl err \<Rightarrow> Inr (fetchRejected fetchID err w))"

definition totalFetchSettled ::
  "symbol \<Rightarrow> 'e + int \<Rightarrow> ('l, 'p, 'q, 'u, 'e) World \<Rightarrow> 'e + ('l, 'p, 'q, 'u, 'e) World" where
  "totalFetchSettled fetchID outcome w =
     (case outcome of
        Inr cnt \<Rightarrow> Inr (totalResolved fetchID cnt w)
      | Inl err \<Rightarrow> Inr (fetchRejected fetchID err w))"

subsection \<open>Starting a round\<close>

text \<open>
  \<open>fetchData\<close> up to its first \<open>await\<close>, which is all that runs before it gives control
  back: the Symbol, the reset, the payload, one \<open>fetchTagDistribution\<close> for each element
  of \<open>eventView.tags\<close> in the order of the array (each callback of \<open>forEach\<close> runs up to its
  own \<open>await\<close>), and \<open>fetchTotalCount\<close>. \<open>pickTagParams\<close> comes from \<open>./utils\<close> and is a
  parameter.
\<close>

definition fetchData ::
  "('p \<Rightarrow> 'q) \<Rightarrow> ('l, 'p, 'q, 'u, 'e) World \<Rightarrow> ('l, 'p, 'q, 'u, 'e) World" where
  "fetchData pickTagParams w =
     (let slug = organization_slug (this_props w);
          view = eventView (this_props w);
          loc = location (this_props w);
          fetchID = nextSymbol w;
          w1 = w\<lparr>nextSymbol := Suc (nextSymbol w)\<rparr>;
          w2 = record_call (SetStateReset fetchID)
                 (setState (\<lambda>st. st\<lparr>tags := Map.empty, totalValues := None,
                                       tagsFetchID := Some fetchID\<rparr>) w1);
          queryPayload = pickTagParams (getEventsAPIPayload view loc);
          w3 = fold (\<lambda>tag. record_call (FetchTagDistribution slug tag queryPayload fetchID))
                 (viewTags view) w2
      in record_call (FetchTotalCount slug queryPayload fetchID) w3)"

definition componentDidMount ::
  "('p \<Rightarrow> 'q) \<Rightarrow> ('l, 'p, 'q, 'u, 'e) World \<Rightarrow> ('l, 'p, 'q, 'u, 'e) World" where
  "componentDidMount pickTagParams w = fetchData pickTagParams w"

subsection \<open>The decision to fetch again\<close>

text \<open>
  \<open>isEqual\<close> of lodash is deep equality, which is equality of the values here; on two
  \<open>Set\<close>s of strings it is equality of the sets.
\<close>

definition shouldRefetchData ::
  "('p \<Rightarrow> 'q) \<Rightarrow> ('l, 'p) Props \<Rightarrow> ('l, 'p, 'q, 'u, 'e) World \<Rightarrow> bool" where
  "shouldRefetchData pickTagParams prevProps w =
     (let thisAPIPayload =
            pickTagParams (getEventsAPIPayload (eventView (this_props w)) (location (this_props w)));
          otherAPIPayload =
            pickTagParams (getEventsAPIPayload (eventView prevProps) (location prevProps))
      in thisAPIPayload \<noteq> otherAPIPayload)"

definition tagsChanged :: "('l, 'p) Props \<Rightarrow> ('l, 'p, 'q, 'u, 'e) World \<Rightarrow> bool" where
  "tagsChanged prevProps w =
     (set (viewTags (eventView (this_props w))) \<noteq> set (viewTags (eventView prevProps)))"

definition componentDidUpdate ::
  "('p \<Rightarrow> 'q) \<Rightarrow> ('l, 'p) Props \<Rightarrow> ('l, 'p, 'q, 'u, 'e) World \<Rightarrow> ('l, 'p, 'q, 'u, 'e) World" where
  "componentDidUpdate pickTagParams prevProps w =
     (if tagsChanged prevProps w \<or> shouldRefetchData pickTagParams prevProps w
      then fetchData pickTagParams w else w)"

subsection \<open>Rendering a tag\<close>

text \<open>
  \<open>tags[tag]\<close> reads a property of an object that was written as an object literal, so
  its prototype is \<open>Object.prototype\<close>: a name that is not an own property is looked up
  there. The properties of \<open>Object.prototype\<close> are functions, and \<open>__proto__\<close> is the
  prototype itself; all are truthy, as is every \<open>Tag\<close>, and none has a property
  \<open>topValues\<close>.
\<close>

datatype 'a property = NoProperty | InheritedProperty | OwnProperty 'a

definition objectPrototypeKeys :: "string list" where
  "objectPrototypeKeys =
     [''constructor'', ''hasOwnProperty'', ''isPrototypeOf'', ''propertyIsEnumerable'',
      ''toLocaleString'', ''toString'', ''valueOf'', ''__proto__'', ''__defineGetter__'',
      ''__defineSetter__'', ''__lookupGetter__'', ''__lookupSetter__'']"

definition getProperty :: "(string \<rightharpoonup> 'a) \<Rightarrow> string \<Rightarrow> 'a property" where
  "getProperty obj k =
     (case obj k of
        Some v \<Rightarrow> OwnProperty v
      | None \<Rightarrow> if k \<in> set objectPrototypeKeys then InheritedProperty else NoProperty)"

fun truthy :: "'a property \<Rightarrow> bool" where
  "truthy NoProperty = False"
| "truthy InheritedProperty = True"
| "truthy (OwnProperty v) = True"

text \<open>\<open>const isLoading = !tags[tag] || totalValues === null\<close> (line 140).\<close>

definition isLoading :: "State \<Rightarrow> string \<Rightarrow> bool" where
  "isLoading st tag = (\<not> truthy (getProperty (tags st) tag) \<or> totalValues st = None)"

datatype jsError = TypeError

text \<open>The props that \<open>renderTag\<close> gives to \<open>TagDistributionMeter\<close>.\<close>

record Meter =
  title :: string
  segments :: "addr list"
  meterTotalValues :: "int option"
  meterIsLoading :: bool

text \<open>
  \<open>segment.url = getEventTagSearchUrl(tag, segment.value, location)\<close> on the segment
  object at address \<open>a\<close>. \<open>getEventTagSearchUrl\<close> comes from \<open>./utils\<close> and is a
  parameter.
\<close>

definition assignUrl ::
  "(string \<Rightarrow> string \<Rightarrow> 'l \<Rightarrow> 'u) \<Rightarrow> string \<Rightarrow> 'l \<Rightarrow> addr
    \<Rightarrow> (addr \<Rightarrow> 'u TagTopValue) \<Rightarrow> (addr \<Rightarrow> 'u TagTopValue)" where
  "assignUrl getEventTagSearchUrl tag loc a h =
     h(a := (h a)\<lparr>url := Some (getEventTagSearchUrl tag (tvalue (h a)) loc)\<rparr>)"

text \<open>
  \<open>renderTag\<close>. When the tag is loading, \<open>segments\<close> is a new empty array. Otherwise it
  is the array \<open>tags[tag].topValues\<close> of the state itself, and \<open>forEach\<close> assigns to the
  segment objects of the state; when \<open>tags[tag]\<close> is a property of the prototype,
  \<open>segments\<close> is \<open>undefined\<close> and \<open>segments.forEach\<close> throws a TypeError.
\<close>

definition renderTag ::
  "(string \<Rightarrow> string \<Rightarrow> 'l \<Rightarrow> 'u) \<Rightarrow> string \<Rightarrow> ('l, 'p, 'q, 'u, 'e) World
    \<Rightarrow> jsError + Meter \<times> ('l, 'p, 'q, 'u, 'e) World" where
  "renderTag getEventTagSearchUrl tag w =
     (let loc = location (this_props w);
          st = this_state w
      in if isLoading st tag
         then Inr (\<lparr>title = tag, segments = [], meterTotalValues = totalValues st,
                    meterIsLoading = True\<rparr>, w)
         else (case getProperty (tags st) tag of
                 OwnProperty t \<Rightarrow>
                   Inr (\<lparr>title = tag, segments = topValues t,
                         meterTotalValues = totalValues st, meterIsLoading = False\<rparr>,
                        w\<lparr>heap := fold (assignUrl getEventTagSearchUrl tag loc)
                                     (topValues t) (heap w)\<rparr>)
               | InheritedProperty \<Rightarrow> Inl TypeError
               | NoProperty \<Rightarrow> Inl TypeError))"

text \<open>
  \<open>render\<close> (lines 165 to 172): \<open>this.props.eventView.tags.map(tag => this.renderTag(tag))\<close>,
  one tag after the other in the order of the array; the first \<open>renderTag\<close> that throws
  ends it. \<open>rendered\<close> is the world that a render leaves.
\<close>

fun renderTags ::
  "(string \<Rightarrow> string \<Rightarrow> 'l \<Rightarrow> 'u) \<Rightarrow> string list \<Rightarrow> ('l, 'p, 'q, 'u, 'e) World
    \<Rightarrow> jsError + Meter list \<times> ('l, 'p, 'q, 'u, 'e) World" where
  "renderTags getEventTagSearchUrl [] w = Inr ([], w)"
| "renderTags getEventTagSearchUrl (tag # ts) w =
     (case renderTag getEventTagSearchUrl tag w of
        Inl err \<Rightarrow> Inl err
      | Inr (m, w1) \<Rightarrow>
          (case renderTags getEventTagSearchUrl ts w1 of
             Inl err \<Rightarrow> Inl err
           | Inr (ms, w2) \<Rightarrow> Inr (m # ms, w2)))"

definition render ::
  "(string \<Rightarrow> string \<Rightarrow> 'l \<Rightarrow> 'u) \<Rightarrow> ('l, 'p, 'q, 'u, 'e) World
    \<Rightarrow> jsError + Meter list \<times> ('l, 'p, 'q, 'u, 'e) World" where
  "render getEventTagSearchUrl w =
     renderTags getEventTagSearchUrl (viewTags (eventView (this_props w))) w"

definition rendered ::
  "(string \<Rightarrow> string \<Rightarrow> 'l \<Rightarrow> 'u) \<Rightarrow> ('l, 'p, 'q, 'u, 'e) World
    \<Rightarrow> jsError + ('l, 'p, 'q, 'u, 'e) World" where
  "rendered getEventTagSearchUrl w =
     (case render getEventTagSearchUrl w of Inl err \<Rightarrow> Inl err | Inr (ms, w') \<Rightarrow> Inr w')"

subsection \<open>The life of the component\<close>

text \<open>
  What can happen to a component, one event at a time: it is mounted, it is updated
  with new props, or one of the fetches that were dispatched settles. The events of a
  run are not restricted to the fetches that are in flight.
\<close>

datatype ('l, 'p, 'e) event =
    Mounted
  | Updated "('l, 'p) Props"
  | TagResolved symbol string Tag
  | TagRejected symbol string 'e
  | TotalResolved symbol int
  | TotalRejected symbol 'e

text \<open>
  One event with the renders that React makes around the code of the component. The
  component is rendered before \<open>componentDidMount\<close> runs, and with the new props before
  \<open>componentDidUpdate\<close> runs; it is rendered again after every \<open>setState\<close>: after the reset
  of \<open>fetchData\<close>, and after the updater of a fetch that resolved. A fetch that rejects
  calls no \<open>setState\<close>.

  When a render throws, the event ends with \<open>Inl\<close>: \<open>componentDidUpdate\<close> does not run,
  and what React does next with the component and with the error (unmounting, an error
  boundary, throwing it out of \<open>setState\<close> into the \<open>catch\<close> block) is outside the file.
\<close>

fun step ::
  "(string \<Rightarrow> string \<Rightarrow> 'l \<Rightarrow> 'u) \<Rightarrow> ('p \<Rightarrow> 'q) \<Rightarrow> ('l, 'p, 'e) event
    \<Rightarrow> ('l, 'p, 'q, 'u, 'e) World \<Rightarrow> jsError + ('l, 'p, 'q, 'u, 'e) World" where
  "step getUrl pick Mounted w =
     (case rendered getUrl w of
        Inl err \<Rightarrow> Inl err
      | Inr w1 \<Rightarrow> rendered getUrl (componentDidMount pick w1))"
| "step getUrl pick (Updated newProps) w =
     (case rendered getUrl (w\<lparr>this_props := newProps\<rparr>) of
        Inl err \<Rightarrow> Inl err
      | Inr w1 \<Rightarrow>
          if tagsChanged (this_props w) w1 \<or> shouldRefetchData pick (this_props w) w1
          then rendered getUrl (componentDidUpdate pick (this_props w) w1)
          else Inr (componentDidUpdate pick (this_props w) w1))"
| "step getUrl pick (TagResolved fetchID tag val) w =
     rendered getUrl (tagResolved fetchID tag val w)"
| "step getUrl pick (TagRejected fetchID tag err) w = Inr (fetchRejected fetchID err w)"
| "step getUrl pick (TotalResolved fetchID cnt) w =
     rendered getUrl (totalResolved fetchID cnt w)"
| "step getUrl pick (TotalRejected fetchID err) w = Inr (fetchRejected fetchID err w)"

fun run ::
  "(string \<Rightarrow> string \<Rightarrow> 'l \<Rightarrow> 'u) \<Rightarrow> ('p \<Rightarrow> 'q) \<Rightarrow> ('l, 'p, 'e) event list
    \<Rightarrow> ('l, 'p, 'q, 'u, 'e) World \<Rightarrow> jsError + ('l, 'p, 'q, 'u, 'e) World" where
  "run getUrl pick [] w = Inr w"
| "run getUrl pick (e # es) w =
     (case step getUrl pick e w of Inl err \<Rightarrow> Inl err | Inr w' \<Rightarrow> run getUrl pick es w')"

text \<open>The state in which a run ends.\<close>

definition finalState :: "jsError + ('l, 'p, 'q, 'u, 'e) World \<Rightarrow> jsError + State" where
  "finalState r = (case r of Inl err \<Rightarrow> Inl err | Inr w \<Rightarrow> Inr (this_state w))"

text \<open>
  The code of the component alone, the renders left out: what an event does to the
  props, the state, the Symbols and the trace. A render writes none of these, so this is
  what \<open>step\<close> does to them when no render throws.
\<close>

fun handle ::
  "('p \<Rightarrow> 'q) \<Rightarrow> ('l, 'p, 'e) event \<Rightarrow> ('l, 'p, 'q, 'u, 'e) World
    \<Rightarrow> ('l, 'p, 'q, 'u, 'e) World" where
  "handle pick Mounted w = componentDidMount pick w"
| "handle pick (Updated newProps) w =
     componentDidUpdate pick (this_props w) (w\<lparr>this_props := newProps\<rparr>)"
| "handle pick (TagResolved fetchID tag val) w = tagResolved fetchID tag val w"
| "handle pick (TagRejected fetchID tag err) w = fetchRejected fetchID err w"
| "handle pick (TotalResolved fetchID cnt) w = totalResolved fetchID cnt w"
| "handle pick (TotalRejected fetchID err) w = fetchRejected fetchID err w"

definition handleAll ::
  "('p \<Rightarrow> 'q) \<Rightarrow> ('l, 'p, 'e) event list \<Rightarrow> ('l, 'p, 'q, 'u, 'e) World
    \<Rightarrow> ('l, 'p, 'q, 'u, 'e) World" where
  "handleAll pick es w = fold (handle pick) es w"

text \<open>
  No tag of the event view is called like a property of \<open>Object.prototype\<close>; and an event
  brings no such event view. With such tags no render throws.
\<close>

definition safeTags :: "('l, 'p) Props \<Rightarrow> bool" where
  "safeTags p = (\<forall>tag \<in> set (viewTags (eventView p)). tag \<notin> set objectPrototypeKeys)"

fun safeEvent :: "('l, 'p, 'e) event \<Rightarrow> bool" where
  "safeEvent (Updated newProps) = safeTags newProps"
| "safeEvent Mounted = True"
| "safeEvent (TagResolved fetchID tag val) = True"
| "safeEvent (TagRejected fetchID tag err) = True"
| "safeEvent (TotalResolved fetchID cnt) = True"
| "safeEvent (TotalRejected fetchID err) = True"

text \<open>The Symbols of the rounds started so far, and the errors reported so far.\<close>

fun mintedBy :: "('q, 'e) call \<Rightarrow> symbol list" where
  "mintedBy (SetStateReset s) = [s]"
| "mintedBy (FetchTagDistribution slug tag q s) = []"
| "mintedBy (FetchTotalCount slug q s) = []"
| "mintedBy (CaptureException err) = []"

definition minted :: "('q, 'e) call list \<Rightarrow> symbol list" where
  "minted tr = concat (map mintedBy tr)"

fun capturedBy :: "('q, 'e) call \<Rightarrow> 'e list" where
  "capturedBy (SetStateReset s) = []"
| "capturedBy (FetchTagDistribution slug tag q s) = []"
| "capturedBy (FetchTotalCount slug q s) = []"
| "capturedBy (CaptureException err) = [err]"

definition captured :: "('q, 'e) call list \<Rightarrow> 'e list" where
  "captured tr = concat (map capturedBy tr)"

fun fetchesBy :: "('q, 'e) call \<Rightarrow> ('q, 'e) call list" where
  "fetchesBy (SetStateReset s) = []"
| "fetchesBy (FetchTagDistribution slug tag q s) = [FetchTagDistribution slug tag q s]"
| "fetchesBy (FetchTotalCount slug q s) = [FetchTotalCount slug q s]"
| "fetchesBy (CaptureException err) = []"

definition fetches :: "('q, 'e) call list \<Rightarrow> ('q, 'e) call list" where
  "fetches tr = concat (map fetchesBy tr)"

text \<open>
  Whether an event is a result of the tag, or of the total, that the updater merges:
  one that carries the Symbol \<open>cur\<close> of the state.
\<close>

fun mergesTag :: "symbol option \<Rightarrow> string \<Rightarrow> ('l, 'p, 'e) event \<Rightarrow> bool" where
  "mergesTag cur tag (TagResolved fetchID tag' val) = (tag' = tag \<and> cur = Some fetchID)"
| "mergesTag cur tag Mounted = False"
| "mergesTag cur tag (Updated newProps) = False"
| "mergesTag cur tag (TagRejected fetchID tag' err) = False"
| "mergesTag cur tag (TotalResolved fetchID cnt) = False"
| "mergesTag cur tag (TotalRejected fetchID err) = False"

fun mergesTotal :: "symbol option \<Rightarrow> ('l, 'p, 'e) event \<Rightarrow> bool" where
  "mergesTotal cur (TotalResolved fetchID cnt) = (cur = Some fetchID)"
| "mergesTotal cur Mounted = False"
| "mergesTotal cur (Updated newProps) = False"
| "mergesTotal cur (TagResolved fetchID tag val) = False"
| "mergesTotal cur (TagRejected fetchID tag err) = False"
| "mergesTotal cur (TotalRejected fetchID err) = False"

text \<open>
  What holds of the Symbols in every world that a run reaches: the Symbols of the rounds
  started so far are below the next Symbol and differ from one another, and
  \<open>tagsFetchID\<close> is the Symbol of the last round, or \<open>undefined\<close> when there was none.
\<close>

definition roundInvariant :: "('l, 'p, 'q, 'u, 'e) World \<Rightarrow> bool" where
  "roundInvariant w \<longleftrightarrow>
     (\<forall>s \<in> set (minted (trace w)). s < nextSymbol w)
     \<and> distinct (minted (trace w))
     \<and> tagsFetchID (this_state w)
         = (if minted (trace w) = [] then None else Some (last (minted (trace w))))"

subsection \<open>A component to evaluate on\<close>

text \<open>
  An event view with the tags browser and os; a location is a path, an events API
  payload is a pair of a query and a sort order, of which \<open>fst\<close> picks the query.
\<close>

definition someProps :: "(string, string \<times> string) Props" where
  "someProps =
     \<lparr>organization_slug = ''acme'',
      eventView = \<lparr>viewTags = [''browser'', ''os''],
                   getEventsAPIPayload = (\<lambda>loc. (''path:'' @ loc, ''-timestamp''))\<rparr>,
      location = ''/discover''\<rparr>"

definition someHeap :: "addr \<Rightarrow> string TagTopValue" where
  "someHeap a = \<lparr>url = None, tvalue = (if a = 0 then ''chrome'' else ''firefox'')\<rparr>"

definition someWorld ::
  "(string, string \<times> string, string, string, string) World" where
  "someWorld = construct someProps someHeap 0"

definition someUrl :: "string \<Rightarrow> string \<Rightarrow> string \<Rightarrow> string" where
  "someUrl tag v loc = loc @ ''?'' @ tag @ ''='' @ v"

text \<open>
  The results of one round, as events: the total and, for each pair of \<open>rs\<close>, the
  distribution of a tag, all with the Symbol of the round.
\<close>

definition roundResults :: "symbol \<Rightarrow> int \<Rightarrow> (string \<times> Tag) list \<Rightarrow> ('l, 'p, 'e) event list" where
  "roundResults fetchID cnt rs =
     TotalResolved fetchID cnt # map (\<lambda>(tag, val). TagResolved fetchID tag val) rs"

text \<open>
  An event view whose only tag is called constructor, at the moment when the total of
  its first round has been merged and the component is about to be rendered; and the
  first component at the moment when the distribution of browser and then the total have
  been merged, with what its heap is once browser has been rendered.
\<close>

definition constructorProps :: "(string, string \<times> string) Props" where
  "constructorProps =
     \<lparr>organization_slug = ''acme'',
      eventView = \<lparr>viewTags = [''constructor''],
                   getEventsAPIPayload = (\<lambda>loc. (''path:'' @ loc, ''-timestamp''))\<rparr>,
      location = ''/discover''\<rparr>"

definition totalOnlyWorld :: "(string, string \<times> string, string, string, string) World" where
  "totalOnlyWorld =
     totalResolved 0 15 (componentDidMount fst (construct constructorProps someHeap 0))"

definition loadedWorld :: "(string, string \<times> string, string, string, string) World" where
  "loadedWorld =
     totalResolved 0 15
       (tagResolved 0 ''browser'' \<lparr>topValues = [0, 1]\<rparr> (componentDidMount fst someWorld))"

definition renderedHeap :: "addr \<Rightarrow> string TagTopValue" where
  "renderedHeap =
     someHeap(0 := \<lparr>url = Some ''/discover?browser=chrome'', tvalue = ''chrome''\<rparr>,
              1 := \<lparr>url = Some ''/discover?browser=firefox'', tvalue = ''firefox''\<rparr>)"

text \<open>
  The same tags in another order and with a repetition, and another sort order, which
  \<open>fst\<close> does not pick; and the event view with one tag less.
\<close>

definition reorderedProps :: "(string, string \<times> string) Props" where
  "reorderedProps =
     \<lparr>organization_slug = ''acme'',
      eventView = \<lparr>viewTags = [''os'', ''browser'', ''os''],
                   getEventsAPIPayload = (\<lambda>loc. (''path:'' @ loc, ''title''))\<rparr>,
      location = ''/discover''\<rparr>"

definition fewerTagsProps :: "(string, string \<times> string) Props" where
  "fewerTagsProps =
     \<lparr>organization_slug = ''acme'',
      eventView = \<lparr>viewTags = [''browser''],
                   getEventsAPIPayload = (\<lambda>loc. (''path:'' @ loc, ''-timestamp''))\<rparr>,
      location = ''/discover''\<rparr>"

text \<open>
  The first component once mounted; then updated to the event view with one tag less,
  which starts a second round; what happens in the first round after the fetch of os
  has failed; and a life of three rounds.
\<close>

definition mountedWorld :: "(string, string \<times> string, string, string, string) World" where
  "mountedWorld = componentDidMount fst someWorld"

definition staleWorld :: "(string, string \<times> string, string, string, string) World" where
  "staleWorld =
     componentDidUpdate fst someProps (mountedWorld\<lparr>this_props := fewerTagsProps\<rparr>)"


definition threeRounds :: "(string, string \<times> string, string) event list" where
  "threeRounds =
     [Mounted, Updated fewerTagsProps, TagResolved 1 ''browser'' \<lparr>topValues = [0, 1]\<rparr>,
      Updated someProps]"

text \<open>
  The component whose event view has the tag os twice, once mounted: two fetches of os
  are in flight. Two orders in which their results \<open>[1]\<close> and \<open>[2]\<close> can arrive; and the
  first fetch of os failing while the second resolves.
\<close>

definition repeatedWorld :: "(string, string \<times> string, string, string, string) World" where
  "repeatedWorld = componentDidMount fst (construct reorderedProps someHeap 0)"

definition osOneThenTwo :: "(string, string \<times> string, string) event list" where
  "osOneThenTwo =
     [TagResolved 0 ''os'' \<lparr>topValues = [1]\<rparr>, TagResolved 0 ''os'' \<lparr>topValues = [2]\<rparr>,
      TagResolved 0 ''browser'' \<lparr>topValues = [0]\<rparr>, TotalResolved 0 15]"

definition osTwoThenOne :: "(string, string \<times> string, string) event list" where
  "osTwoThenOne =
     [TagResolved 0 ''os'' \<lparr>topValues = [2]\<rparr>, TagResolved 0 ''os'' \<lparr>topValues = [1]\<rparr>,
      TagResolved 0 ''browser'' \<lparr>topValues = [0]\<rparr>, TotalResolved 0 15]"


section \<open>Facts about starting a round\<close>

lemma fold_record_call:
  "fold (\<lambda>x. record_call (f x)) xs w = w\<lparr>trace := trace w @ map f xs\<rparr>"
  by (induction xs arbitrary: w) (simp_all add: record_call_def)

text \<open>\<open>fetchData\<close> in one update of the world.\<close>

lemma fetchData_eq:
  "fetchData pick w =
     w\<lparr>this_state := \<lparr>tags = Map.empty, totalValues = None, tagsFetchID = Some (nextSymbol w)\<rparr>,
       nextSymbol := Suc (nextSymbol w),
       trace := trace w @ SetStateReset (nextSymbol w)
         # map (\<lambda>tag. FetchTagDistribution (organization_slug (this_props w)) tag
                  (pick (getEventsAPIPayload (eventView (this_props w)) (location (this_props w))))
                  (nextSymbol w))
             (viewTags (eventView (this_props w)))
         @ [FetchTotalCount (organization_slug (this_props w))
              (pick (getEventsAPIPayload (eventView (this_props w)) (location (this_props w))))
              (nextSymbol w)]\<rparr>"
  by (simp add: fetchData_def Let_def fold_record_call record_call_def setState_def)

section \<open>Stale results\<close>

text \<open>
  C1. A fetch that resolves, of a tag or of the total, with a Symbol other than the one
  in the state leaves the whole world as it was: the state (and with it everything else)
  after the continuation equals the state before, so the stale result is not merged.
\<close>

theorem stale_resolution_unchanged:
  assumes "tagsFetchID (this_state w) \<noteq> Some fetchID"
  shows "tagResolved fetchID tag val w = w \<and> totalResolved fetchID cnt w = w
    \<and> this_state (tagResolved fetchID tag val w) = this_state w
    \<and> this_state (totalResolved fetchID cnt w) = this_state w"
  using assms
  by (simp add: tagResolved_def totalResolved_def setState_def tagUpdater_def totalUpdater_def)

theorem stale_resolution_unchanged_witness:
  "tagsFetchID (this_state (componentDidMount fst someWorld)) \<noteq> Some 7
   \<and> tagResolved 7 ''os'' \<lparr>topValues = [0, 1]\<rparr> (componentDidMount fst someWorld)
       = componentDidMount fst someWorld
   \<and> totalResolved 7 15 (componentDidMount fst someWorld) = componentDidMount fst someWorld"
  using stale_resolution_unchanged [of "componentDidMount fst someWorld" 7 "''os''"
      "\<lparr>topValues = [0, 1]\<rparr>" 15]
  by (simp add: componentDidMount_def fetchData_eq someWorld_def construct_def)

section \<open>Starting a round\<close>

text \<open>
  C2. Every call of \<open>fetchData\<close>, in whatever world (so whatever was dispatched before and
  has not settled yet), leaves the state with an empty \<open>tags\<close>, \<open>totalValues\<close> null and
  the new Symbol as \<open>tagsFetchID\<close>; and of the calls it makes the reset is the first, before
  the fetch of every tag of the event view and the fetch of the total.
\<close>

theorem fetchData_resets_before_dispatch:
  "this_state (fetchData pick w)
     = \<lparr>tags = Map.empty, totalValues = None, tagsFetchID = Some (nextSymbol w)\<rparr>
   \<and> trace (fetchData pick w)
     = trace w @ SetStateReset (nextSymbol w)
         # map (\<lambda>tag. FetchTagDistribution (organization_slug (this_props w)) tag
                  (pick (getEventsAPIPayload (eventView (this_props w)) (location (this_props w))))
                  (nextSymbol w))
             (viewTags (eventView (this_props w)))
         @ [FetchTotalCount (organization_slug (this_props w))
              (pick (getEventsAPIPayload (eventView (this_props w)) (location (this_props w))))
              (nextSymbol w)]"
  by (simp add: fetchData_eq)

section \<open>The decision to fetch again\<close>

text \<open>
  C3. When the tags of the previous and of the present event view are equal as sets, and
  \<open>pickTagParams\<close> of the two events API payloads are equal, the condition of
  \<open>componentDidUpdate\<close> is false and \<open>componentDidUpdate\<close> changes nothing: no round is
  started.
\<close>

theorem no_refetch_when_unchanged:
  assumes "set (viewTags (eventView (this_props w))) = set (viewTags (eventView prevProps))"
    and "pick (getEventsAPIPayload (eventView (this_props w)) (location (this_props w)))
       = pick (getEventsAPIPayload (eventView prevProps) (location prevProps))"
  shows "\<not> (tagsChanged prevProps w \<or> shouldRefetchData pick prevProps w)
     \<and> componentDidUpdate pick prevProps w = w"
  using assms by (simp add: componentDidUpdate_def tagsChanged_def shouldRefetchData_def)

theorem no_refetch_when_unchanged_witness:
  "set (viewTags (eventView reorderedProps)) = set (viewTags (eventView someProps))
   \<and> viewTags (eventView reorderedProps) \<noteq> viewTags (eventView someProps)
   \<and> getEventsAPIPayload (eventView reorderedProps) (location reorderedProps)
       \<noteq> getEventsAPIPayload (eventView someProps) (location someProps)
   \<and> componentDidUpdate fst someProps (someWorld\<lparr>this_props := reorderedProps\<rparr>)
       = someWorld\<lparr>this_props := reorderedProps\<rparr>"
  using no_refetch_when_unchanged [of "someWorld\<lparr>this_props := reorderedProps\<rparr>" someProps fst]
  by (simp add: reorderedProps_def someProps_def insert_commute)

text \<open>
  C4. When the tags of the previous and of the present event view differ as sets, the
  condition of \<open>componentDidUpdate\<close> is true whatever the payloads are, and
  \<open>componentDidUpdate\<close> does what \<open>fetchData\<close> does: a round is started, with a new Symbol.
\<close>

theorem refetch_when_tags_differ:
  assumes "set (viewTags (eventView (this_props w))) \<noteq> set (viewTags (eventView prevProps))"
  shows "(tagsChanged prevProps w \<or> shouldRefetchData pick prevProps w)
     \<and> componentDidUpdate pick prevProps w = fetchData pick w
     \<and> minted (trace (componentDidUpdate pick prevProps w)) = minted (trace w) @ [nextSymbol w]
     \<and> tagsFetchID (this_state (componentDidUpdate pick prevProps w)) = Some (nextSymbol w)"
  using assms by (simp add: componentDidUpdate_def tagsChanged_def fetchData_eq minted_def)

theorem refetch_when_tags_differ_witness:
  "set (viewTags (eventView fewerTagsProps)) \<noteq> set (viewTags (eventView someProps))
   \<and> \<not> shouldRefetchData fst someProps (someWorld\<lparr>this_props := fewerTagsProps\<rparr>)
   \<and> componentDidUpdate fst someProps (someWorld\<lparr>this_props := fewerTagsProps\<rparr>)
       = fetchData fst (someWorld\<lparr>this_props := fewerTagsProps\<rparr>)
   \<and> trace (componentDidUpdate fst someProps (someWorld\<lparr>this_props := fewerTagsProps\<rparr>))
       = [SetStateReset 0, FetchTagDistribution ''acme'' ''browser'' ''path:/discover'' 0,
          FetchTotalCount ''acme'' ''path:/discover'' 0]"
  using refetch_when_tags_differ [of "someWorld\<lparr>this_props := fewerTagsProps\<rparr>" someProps fst]
  by (simp add: fewerTagsProps_def someProps_def shouldRefetchData_def fetchData_eq
      someWorld_def construct_def)

section \<open>The read view\<close>

text \<open>
  For a tag whose name is not the name of a property of \<open>Object.prototype\<close>, the tag is
  loading exactly when it has no entry in \<open>tags\<close> or the total is null; and whatever the
  name, every tag is loading as long as the total is null.
\<close>

lemma isLoading_iff:
  assumes "tag \<notin> set objectPrototypeKeys"
  shows "isLoading st tag \<longleftrightarrow> tags st tag = None \<or> totalValues st = None"
  using assms by (simp add: isLoading_def getProperty_def split: option.splits)

lemma isLoading_total_absent: "totalValues st = None \<Longrightarrow> isLoading st tag"
  by (simp add: isLoading_def)

lemma totalOnlyWorld_eq:
  "totalOnlyWorld =
     \<lparr>this_props = constructorProps,
      this_state = \<lparr>tags = Map.empty, totalValues = Some 15, tagsFetchID = Some 0\<rparr>,
      heap = someHeap, nextSymbol = 1,
      trace = [SetStateReset 0,
               FetchTagDistribution ''acme'' ''constructor'' ''path:/discover'' 0,
               FetchTotalCount ''acme'' ''path:/discover'' 0]\<rparr>"
  by (simp add: totalOnlyWorld_def componentDidMount_def fetchData_eq construct_def
      totalResolved_def setState_def totalUpdater_def constructorProps_def)

text \<open>
  C5. The read view should report a tag as loading exactly when the result of the tag
  is absent from \<open>tags\<close> or the total is null. The code does not for a tag that is called
  like a property of \<open>Object.prototype\<close>: when such a tag has no entry in \<open>tags\<close> and the
  total is there, \<open>tags[tag]\<close> is the inherited property, \<open>isLoading\<close> is false although
  the result of the tag is absent, and \<open>renderTag\<close> throws a TypeError.
\<close>

theorem prototype_key_not_loading:
  assumes "tag \<in> set objectPrototypeKeys"
    and "tags (this_state w) tag = None"
    and "totalValues (this_state w) = Some cnt"
  shows "\<not> isLoading (this_state w) tag \<and> renderTag getUrl tag w = Inl TypeError"
proof -
  from assms have g: "getProperty (tags (this_state w)) tag = InheritedProperty"
    by (simp add: getProperty_def)
  with assms have l: "\<not> isLoading (this_state w) tag"
    by (simp add: isLoading_def)
  from g l show ?thesis by (simp add: renderTag_def Let_def)
qed

theorem prototype_key_not_loading_witness:
  "''constructor'' \<in> set (viewTags (eventView (this_props totalOnlyWorld)))
   \<and> tags (this_state totalOnlyWorld) ''constructor'' = None
   \<and> totalValues (this_state totalOnlyWorld) = Some 15
   \<and> renderTag someUrl ''constructor'' totalOnlyWorld = Inl TypeError"
  using prototype_key_not_loading [of "''constructor''" totalOnlyWorld 15 someUrl]
  by (simp add: totalOnlyWorld_eq objectPrototypeKeys_def constructorProps_def)

subsection \<open>What rendering writes\<close>

lemma fold_assignUrl_other:
  "a \<notin> set as \<Longrightarrow> fold (assignUrl g tag loc) as h a = h a"
  by (induction as arbitrary: h) (simp_all add: assignUrl_def)

lemma fold_assignUrl_tvalue:
  "tvalue (fold (assignUrl g tag loc) as h a) = tvalue (h a)"
  by (induction as arbitrary: h) (simp_all add: assignUrl_def)

lemma fold_assignUrl_url:
  "a \<in> set as \<Longrightarrow> url (fold (assignUrl g tag loc) as h a) = Some (g tag (tvalue (h a)) loc)"
proof (induction as arbitrary: h)
  case Nil
  then show ?case by simp
next
  case (Cons b bs)
  show ?case
  proof (cases "a \<in> set bs")
    case True
    then show ?thesis using Cons.IH [of "assignUrl g tag loc b h"]
      by (simp add: assignUrl_def)
  next
    case False
    with Cons.prems have "a = b" by simp
    with False have eq1: "fold (assignUrl g tag loc) (b # bs) h a = assignUrl g tag loc a h a"
      by (simp add: fold_assignUrl_other)
    have eq2: "url (assignUrl g tag loc a h a) = Some (g tag (tvalue (h a)) loc)"
      by (simp add: assignUrl_def)
    show ?thesis by (simp only: eq1 eq2)
  qed
qed

lemma loadedWorld_eq:
  "loadedWorld =
     \<lparr>this_props = someProps,
      this_state = \<lparr>tags = [''browser'' \<mapsto> \<lparr>topValues = [0, 1]\<rparr>], totalValues = Some 15,
                    tagsFetchID = Some 0\<rparr>,
      heap = someHeap, nextSymbol = 1,
      trace = [SetStateReset 0, FetchTagDistribution ''acme'' ''browser'' ''path:/discover'' 0,
               FetchTagDistribution ''acme'' ''os'' ''path:/discover'' 0,
               FetchTotalCount ''acme'' ''path:/discover'' 0]\<rparr>"
  by (simp add: loadedWorld_def componentDidMount_def fetchData_eq someWorld_def
      construct_def totalResolved_def tagResolved_def setState_def totalUpdater_def
      tagUpdater_def someProps_def)

lemma renderTag_loadedWorld:
  "renderTag someUrl ''browser'' loadedWorld
     = Inr (\<lparr>title = ''browser'', segments = [0, 1], meterTotalValues = Some 15,
             meterIsLoading = False\<rparr>,
            loadedWorld\<lparr>heap := renderedHeap\<rparr>)"
  by (simp add: loadedWorld_eq renderTag_def Let_def isLoading_def getProperty_def
      assignUrl_def someUrl_def someHeap_def someProps_def renderedHeap_def)

text \<open>
  C9, as the claim states it, fails: rendering the tag browser, whose distribution and
  total are there, assigns the url of the segment objects that the state holds. The
  segment at address 0 had no url before and has one after.
\<close>

theorem renderTag_mutates_segments:
  "renderTag someUrl ''browser'' loadedWorld
     = Inr (\<lparr>title = ''browser'', segments = [0, 1], meterTotalValues = Some 15,
             meterIsLoading = False\<rparr>,
            loadedWorld\<lparr>heap := renderedHeap\<rparr>)
   \<and> tags (this_state loadedWorld) ''browser'' = Some \<lparr>topValues = [0, 1]\<rparr>
   \<and> heap loadedWorld 0 = \<lparr>url = None, tvalue = ''chrome''\<rparr>
   \<and> heap (loadedWorld\<lparr>heap := renderedHeap\<rparr>) 0
       = \<lparr>url = Some ''/discover?browser=chrome'', tvalue = ''chrome''\<rparr>
   \<and> loadedWorld\<lparr>heap := renderedHeap\<rparr> \<noteq> loadedWorld"
proof -
  have "heap (loadedWorld\<lparr>heap := renderedHeap\<rparr>) 0 \<noteq> heap loadedWorld 0"
    by (simp add: loadedWorld_eq renderedHeap_def someHeap_def)
  then have "loadedWorld\<lparr>heap := renderedHeap\<rparr> \<noteq> loadedWorld"
    by metis
  then show ?thesis
    by (simp add: renderTag_loadedWorld) (simp add: loadedWorld_eq renderedHeap_def someHeap_def)
qed

text \<open>
  C9, amended. When \<open>renderTag\<close> returns, the state (the tags and their arrays of
  references, the total, the Symbol), the props and the trace are what they were, and
  so is the \<open>value\<close> of every segment object. A tag that is loading is rendered with no
  segments and nothing at all is written. For a tag that is not loading, the segments
  rendered are the \<open>topValues\<close> of its entry in the state, the \<open>url\<close> of each of them is
  overwritten with \<open>getEventTagSearchUrl(tag, segment.value, location)\<close>, and no other
  segment object is written.
\<close>

theorem renderTag_writes_only_urls:
  assumes "renderTag getUrl tag w = Inr (m, w')"
  shows "this_state w' = this_state w \<and> this_props w' = this_props w
    \<and> nextSymbol w' = nextSymbol w \<and> trace w' = trace w
    \<and> (\<forall>a. tvalue (heap w' a) = tvalue (heap w a))
    \<and> (\<forall>a. a \<notin> set (segments m) \<longrightarrow> heap w' a = heap w a)
    \<and> (\<forall>a. a \<in> set (segments m) \<longrightarrow>
          url (heap w' a) = Some (getUrl tag (tvalue (heap w a)) (location (this_props w))))
    \<and> (isLoading (this_state w) tag \<longrightarrow> w' = w \<and> segments m = [])
    \<and> (\<not> isLoading (this_state w) tag \<longrightarrow>
          tags (this_state w) tag = Some \<lparr>topValues = segments m\<rparr>)"
proof (cases "isLoading (this_state w) tag")
  case True
  with assms show ?thesis by (auto simp: renderTag_def Let_def)
next
  case False
  with assms obtain t where t: "getProperty (tags (this_state w)) tag = OwnProperty t"
    by (auto simp: renderTag_def Let_def split: property.splits)
  from t have own: "tags (this_state w) tag = Some t"
    by (auto simp: getProperty_def split: option.splits if_splits)
  from assms False t have m: "segments m = topValues t"
    and w': "w' = w\<lparr>heap := fold (assignUrl getUrl tag (location (this_props w)))
                              (topValues t) (heap w)\<rparr>"
    by (auto simp: renderTag_def Let_def)
  show ?thesis using False own
    by (simp add: m w' fold_assignUrl_other fold_assignUrl_tvalue fold_assignUrl_url)
qed

theorem renderTag_writes_only_urls_witness:
  "renderTag someUrl ''browser'' loadedWorld
     = Inr (\<lparr>title = ''browser'', segments = [0, 1], meterTotalValues = Some 15,
             meterIsLoading = False\<rparr>,
            loadedWorld\<lparr>heap := renderedHeap\<rparr>)
   \<and> this_state (loadedWorld\<lparr>heap := renderedHeap\<rparr>) = this_state loadedWorld
   \<and> tvalue (renderedHeap 1) = tvalue (heap loadedWorld 1)
   \<and> renderedHeap 2 = heap loadedWorld 2
   \<and> url (renderedHeap 1) = Some (someUrl ''browser'' ''firefox'' ''/discover'')
   \<and> \<not> isLoading (this_state loadedWorld) ''browser''"
proof -
  note r = renderTag_writes_only_urls [OF renderTag_loadedWorld]
  have "this_state (loadedWorld\<lparr>heap := renderedHeap\<rparr>) = this_state loadedWorld
    \<and> tvalue (renderedHeap 1) = tvalue (heap loadedWorld 1)
    \<and> renderedHeap 2 = heap loadedWorld 2
    \<and> url (renderedHeap 1) = Some (someUrl ''browser'' ''firefox'' ''/discover'')
    \<and> \<not> isLoading (this_state loadedWorld) ''browser''"
    using r
    by (simp add: loadedWorld_eq renderedHeap_def someHeap_def someUrl_def someProps_def
        isLoading_def getProperty_def)
  with renderTag_loadedWorld show ?thesis
    by (simp only: simp_thms)
qed

section \<open>Events, with and without the renders\<close>

lemma renderTag_frame:
  assumes "renderTag g tag w = Inr (m, w')"
  shows "w' = w\<lparr>heap := heap w'\<rparr>"
  using assms
  by (auto simp: renderTag_def Let_def split: if_splits property.splits)

lemma renderTags_frame:
  "renderTags g ts w = Inr (ms, w') \<Longrightarrow> w' = w\<lparr>heap := heap w'\<rparr>"
proof (induction ts arbitrary: w ms)
  case Nil
  then show ?case by simp
next
  case (Cons tag ts)
  from Cons.prems obtain m w1 ms' where a: "renderTag g tag w = Inr (m, w1)"
    and b: "renderTags g ts w1 = Inr (ms', w')"
    by (auto split: sum.splits prod.splits)
  from renderTag_frame [OF a] Cons.IH [OF b] show ?case
    by (metis World.surjective World.update_convs(3))
qed

lemma rendered_frame:
  assumes "rendered g w = Inr w'"
  shows "w' = w\<lparr>heap := heap w'\<rparr>"
  using assms renderTags_frame [of g _ w _ w']
  by (auto simp: rendered_def render_def split: sum.splits prod.splits)

lemma renderTag_safe:
  assumes "tag \<notin> set objectPrototypeKeys"
  shows "\<exists>m w'. renderTag g tag w = Inr (m, w')"
  using assms
  by (auto simp: renderTag_def Let_def isLoading_def getProperty_def
      split: option.splits property.splits)

lemma renderTags_safe:
  "\<forall>tag \<in> set ts. tag \<notin> set objectPrototypeKeys \<Longrightarrow> \<exists>ms w'. renderTags g ts w = Inr (ms, w')"
proof (induction ts arbitrary: w)
  case Nil
  show ?case by simp
next
  case (Cons tag ts)
  from Cons.prems renderTag_safe [of tag g w] obtain m w1
    where a: "renderTag g tag w = Inr (m, w1)" by auto
  from Cons.prems Cons.IH [of w1] obtain ms w2
    where b: "renderTags g ts w1 = Inr (ms, w2)" by auto
  from a b show ?case by simp
qed

lemma rendered_safe:
  assumes "safeTags (this_props w)"
  shows "\<exists>w'. rendered g w = Inr w'"
proof -
  from assms renderTags_safe [of "viewTags (eventView (this_props w))" g w]
  obtain ms w' where "render g w = Inr (ms, w')"
    by (auto simp: safeTags_def render_def)
  then show ?thesis by (simp add: rendered_def)
qed

lemma handle_heap:
  "handle pick e (w\<lparr>heap := h\<rparr>) = (handle pick e w)\<lparr>heap := h\<rparr>"
  by (cases e)
    (simp_all add: componentDidMount_def componentDidUpdate_def fetchData_eq tagResolved_def
      totalResolved_def fetchRejected_def captureException_def record_call_def setState_def
      tagsChanged_def shouldRefetchData_def)

lemma handle_props:
  "this_props (handle pick e w) = (case e of Updated p \<Rightarrow> p | _ \<Rightarrow> this_props w)"
  by (cases e)
    (simp_all add: componentDidMount_def componentDidUpdate_def fetchData_eq tagResolved_def
      totalResolved_def fetchRejected_def captureException_def record_call_def setState_def)

lemma step_frame:
  assumes "step g pick e w = Inr w'"
  shows "w' = (handle pick e w)\<lparr>heap := heap w'\<rparr>"
proof (cases e)
  case Mounted
  with assms obtain w1 where a: "rendered g w = Inr w1"
    and b: "rendered g (componentDidMount pick w1) = Inr w'"
    by (auto split: sum.splits)
  from rendered_frame [OF a] have "componentDidMount pick w1
      = (componentDidMount pick w)\<lparr>heap := heap w1\<rparr>"
    using handle_heap [where e = Mounted and w = w and h = "heap w1" and pick = pick] by simp
  with rendered_frame [OF b] Mounted show ?thesis
    by (metis World.surjective World.update_convs(3) handle.simps(1))
next
  case (Updated newProps)
  let ?w0 = "w\<lparr>this_props := newProps\<rparr>"
  from assms Updated obtain w1 where a: "rendered g ?w0 = Inr w1"
    and b: "(if tagsChanged (this_props w) w1 \<or> shouldRefetchData pick (this_props w) w1
             then rendered g (componentDidUpdate pick (this_props w) w1)
             else Inr (componentDidUpdate pick (this_props w) w1)) = Inr w'"
    by (auto split: sum.splits)
  from rendered_frame [OF a] have w1: "w1 = ?w0\<lparr>heap := heap w1\<rparr>" .
  have c: "componentDidUpdate pick (this_props w) w1
      = (componentDidUpdate pick (this_props w) ?w0)\<lparr>heap := heap w1\<rparr>"
    by (subst w1)
      (simp add: componentDidUpdate_def fetchData_eq tagsChanged_def shouldRefetchData_def)
  from b have "w' = (componentDidUpdate pick (this_props w) w1)\<lparr>heap := heap w'\<rparr>"
    by (auto split: if_splits dest: rendered_frame)
  with c Updated show ?thesis
    by (metis World.surjective World.update_convs(3) handle.simps(2))
next
  case (TagResolved f tag val)
  with assms rendered_frame [of g "tagResolved f tag val w" w'] show ?thesis by simp
next
  case (TagRejected f tag err)
  with assms show ?thesis by auto
next
  case (TotalResolved f cnt)
  with assms rendered_frame [of g "totalResolved f cnt w" w'] show ?thesis by simp
next
  case (TotalRejected f err)
  with assms show ?thesis by auto
qed

lemma handleAll_heap:
  "handleAll pick es (w\<lparr>heap := h\<rparr>) = (handleAll pick es w)\<lparr>heap := h\<rparr>"
  unfolding handleAll_def
  by (induction es arbitrary: w) (simp_all add: handle_heap)

lemma run_frame:
  "run g pick es w = Inr w' \<Longrightarrow> w' = (handleAll pick es w)\<lparr>heap := heap w'\<rparr>"
proof (induction es arbitrary: w)
  case Nil
  then show ?case by (auto simp: handleAll_def)
next
  case (Cons e es)
  from Cons.prems obtain w1 where a: "step g pick e w = Inr w1"
    and b: "run g pick es w1 = Inr w'"
    by (auto split: sum.splits)
  from step_frame [OF a] have "handleAll pick es w1
      = (handleAll pick es (handle pick e w))\<lparr>heap := heap w1\<rparr>"
    using handleAll_heap [where es = es and w = "handle pick e w" and h = "heap w1"
        and pick = pick] by simp
  with Cons.IH [OF b] have "w' = (handleAll pick es (handle pick e w))\<lparr>heap := heap w'\<rparr>"
    by (metis World.surjective World.update_convs(3))
  then show ?case by (simp add: handleAll_def)
qed

lemma run_Inr:
  assumes "run g pick es w = Inr w'"
  shows "this_state w' = this_state (handleAll pick es w)"
    and "trace w' = trace (handleAll pick es w)"
    and "nextSymbol w' = nextSymbol (handleAll pick es w)"
    and "this_props w' = this_props (handleAll pick es w)"
  by (subst run_frame [OF assms], simp)+

lemma step_safe:
  assumes "safeTags (this_props w)" and "safeEvent e"
  shows "\<exists>w'. step g pick e w = Inr w' \<and> safeTags (this_props w')"
proof -
  have r: "\<exists>w'. rendered g v = Inr w' \<and> this_props w' = this_props v"
    if "safeTags (this_props v)" for v :: "('a, 'b, 'c, 'd, 'e) World"
  proof -
    from rendered_safe [OF that] obtain w' where w': "rendered g v = Inr w'" ..
    from rendered_frame [OF w'] have "this_props w' = this_props v"
      by (metis World.select_convs(1) World.surjective World.update_convs(3))
    with w' show ?thesis by blast
  qed
  show ?thesis
  proof (cases e)
    case Mounted
    from r [OF assms(1)] obtain w1 where a: "rendered g w = Inr w1"
      and p1: "this_props w1 = this_props w" by blast
    have "this_props (componentDidMount pick w1) = this_props w"
      by (simp add: componentDidMount_def fetchData_eq p1)
    with assms(1) r [of "componentDidMount pick w1"] obtain w2
      where "rendered g (componentDidMount pick w1) = Inr w2" "this_props w2 = this_props w"
      by auto
    with a Mounted assms(1) show ?thesis by simp
  next
    case (Updated newProps)
    with assms(2) have s: "safeTags newProps" by simp
    from s r [of "w\<lparr>this_props := newProps\<rparr>"] obtain w1
      where a: "rendered g (w\<lparr>this_props := newProps\<rparr>) = Inr w1"
        and p1: "this_props w1 = newProps" by auto
    have p2: "this_props (componentDidUpdate pick (this_props w) w1) = newProps"
      by (simp add: componentDidUpdate_def fetchData_eq p1)
    with s r [of "componentDidUpdate pick (this_props w) w1"] obtain w2
      where b: "rendered g (componentDidUpdate pick (this_props w) w1) = Inr w2"
        and "this_props w2 = newProps" by auto
    with a p2 s Updated show ?thesis by simp
  next
    case (TagResolved f tag val)
    have "this_props (tagResolved f tag val w) = this_props w"
      by (simp add: tagResolved_def setState_def)
    with assms(1) r [of "tagResolved f tag val w"] TagResolved show ?thesis by auto
  next
    case (TotalResolved f cnt)
    have "this_props (totalResolved f cnt w) = this_props w"
      by (simp add: totalResolved_def setState_def)
    with assms(1) r [of "totalResolved f cnt w"] TotalResolved show ?thesis by auto
  next
    case (TagRejected f tag err)
    with assms(1) show ?thesis
      by (simp add: fetchRejected_def captureException_def record_call_def)
  next
    case (TotalRejected f err)
    with assms(1) show ?thesis
      by (simp add: fetchRejected_def captureException_def record_call_def)
  qed
qed

lemma run_safe:
  "safeTags (this_props w) \<Longrightarrow> \<forall>e \<in> set es. safeEvent e \<Longrightarrow> \<exists>w'. run g pick es w = Inr w'"
proof (induction es arbitrary: w)
  case Nil
  show ?case by simp
next
  case (Cons e es)
  from Cons.prems step_safe [of w e g pick] obtain w1
    where a: "step g pick e w = Inr w1" and s: "safeTags (this_props w1)" by auto
  from Cons.IH [OF s] Cons.prems obtain w' where "run g pick es w1 = Inr w'" by auto
  with a show ?case by simp
qed

lemma finalState_run_safe:
  assumes "safeTags (this_props w)" and "\<forall>e \<in> set es. safeEvent e"
  shows "finalState (run g pick es w) = Inr (this_state (handleAll pick es w))"
proof -
  from run_safe [OF assms] obtain w' where w': "run g pick es w = Inr w'" ..
  with run_Inr(1) [OF w'] show ?thesis by (simp add: finalState_def)
qed

section \<open>Merging the results of a round\<close>

lemma tagResolved_twist:
  "tag \<noteq> tag' \<Longrightarrow>
   tagResolved f tag val (tagResolved f tag' val' w)
     = tagResolved f tag' val' (tagResolved f tag val w)"
  by (simp add: tagResolved_def setState_def tagUpdater_def fun_upd_twist)

lemma tagResolved_totalResolved:
  "tagResolved f tag val (totalResolved f cnt w) = totalResolved f cnt (tagResolved f tag val w)"
  by (simp add: tagResolved_def totalResolved_def setState_def tagUpdater_def totalUpdater_def)

lemma roundResults_commute:
  assumes d: "distinct (map fst rs)"
    and x: "x \<in> set (roundResults f cnt rs)" and y: "y \<in> set (roundResults f cnt rs)"
  shows "handle pick x (handle pick y w) = handle pick y (handle pick x w)"
proof -
  have cases: "\<And>e. e \<in> set (roundResults f cnt rs) \<Longrightarrow>
      e = TotalResolved f cnt \<or> (\<exists>tag val. (tag, val) \<in> set rs \<and> e = TagResolved f tag val)"
    by (auto simp: roundResults_def)
  from cases [OF x] cases [OF y] show ?thesis
  proof (elim disjE exE conjE)
    fix tag val tag' val'
    assume a: "(tag, val) \<in> set rs" "x = TagResolved f tag val"
      and b: "(tag', val') \<in> set rs" "y = TagResolved f tag' val'"
    show ?thesis
    proof (cases "tag = tag'")
      case True
      with d a b have "val = val'" by (auto dest: eq_key_imp_eq_value)
      with True a b show ?thesis by simp
    next
      case False
      with a b show ?thesis by (simp add: tagResolved_twist)
    qed
  qed (simp_all add: tagResolved_totalResolved)
qed

lemma fold_tag_results:
  assumes "tagsFetchID (this_state w) = Some f"
  shows "fold (handle pick) (map (\<lambda>(tag, val). TagResolved f tag val) (rev rs)) w
    = w\<lparr>this_state := (this_state w)\<lparr>tags := tags (this_state w) ++ map_of rs\<rparr>\<rparr>"
proof (induction rs)
  case Nil
  show ?case by simp
next
  case (Cons r rs)
  obtain tag val where r: "r = (tag, val)" by (cases r)
  have m: "tags (this_state w) ++ map_of (r # rs)
      = (tags (this_state w) ++ map_of rs)(tag \<mapsto> val)"
    by (simp add: r)
  have "fold (handle pick) (map (\<lambda>(tag, val). TagResolved f tag val) (rev (r # rs))) w
    = tagResolved f tag val
        (w\<lparr>this_state := (this_state w)\<lparr>tags := tags (this_state w) ++ map_of rs\<rparr>\<rparr>)"
    by (simp add: Cons.IH r)
  also have "\<dots>
      = w\<lparr>this_state := (this_state w)\<lparr>tags := tags (this_state w) ++ map_of (r # rs)\<rparr>\<rparr>"
    unfolding m using assms by (simp add: tagResolved_def setState_def tagUpdater_def)
  finally show ?case .
qed

lemma fold_stale_results:
  assumes "tagsFetchID (this_state w) \<noteq> Some f"
  shows "fold (handle pick) (roundResults f cnt rs) w = w"
proof -
  have "fold (handle pick) (map (\<lambda>(tag, val). TagResolved f tag val) rs) w = w"
    if "tagsFetchID (this_state w) \<noteq> Some f"
    for w :: "('a, 'b, 'c, 'd, 'e) World" and rs
    using that
    by (induction rs arbitrary: w) (auto simp: tagResolved_def setState_def tagUpdater_def)
  moreover have "totalResolved f cnt w = w" using assms
    by (simp add: totalResolved_def setState_def totalUpdater_def)
  ultimately show ?thesis using assms by (simp add: roundResults_def)
qed

lemma handleAll_merges:
  fixes w :: "('l, 'p, 'q, 'u, 'e) World" and pick :: "'p \<Rightarrow> 'q"
  assumes d: "distinct (map fst rs)"
    and es: "mset es = mset (roundResults fetchID cnt rs)"
    and es': "mset es' = mset (roundResults fetchID cnt rs)"
  shows "handleAll pick es w = handleAll pick es' w
    \<and> this_state (handleAll pick es w) =
        (if tagsFetchID (this_state w) = Some fetchID
         then (this_state w)\<lparr>tags := tags (this_state w) ++ map_of rs, totalValues := Some cnt\<rparr>
         else this_state w)"
proof -
  let ?canon = "roundResults fetchID cnt rs :: ('l, 'p, 'e) event list"
  let ?h = "handle pick :: ('l, 'p, 'e) event \<Rightarrow> ('l, 'p, 'q, 'u, 'e) World
    \<Rightarrow> ('l, 'p, 'q, 'u, 'e) World"
  have comm: "\<And>x y. x \<in> set ?canon \<Longrightarrow> y \<in> set ?canon
      \<Longrightarrow> ?h x \<circ> ?h y = ?h y \<circ> ?h x"
    by (rule ext) (simp add: roundResults_commute [OF d])
  have to_canon: "fold ?h xs w = fold ?h ?canon w"
    if "mset xs = mset ?canon" for xs
  proof -
    have "fold ?h ?canon = fold ?h xs"
      by (rule fold_multiset_equiv [OF comm]) (simp_all add: that)
    then show ?thesis by simp
  qed
  have one: "handleAll pick es w = handleAll pick es' w"
    unfolding handleAll_def by (simp only: to_canon [OF es] to_canon [OF es'])
  have "mset (roundResults fetchID cnt (rev rs) :: ('l, 'p, 'e) event list) = mset ?canon"
    by (simp add: roundResults_def rev_map [symmetric])
  from to_canon [OF this]
  have two: "handleAll pick es w = fold ?h (roundResults fetchID cnt (rev rs)) w"
    unfolding handleAll_def by (simp only: to_canon [OF es])
  show ?thesis
  proof (cases "tagsFetchID (this_state w) = Some fetchID")
    case True
    then have "tagsFetchID (this_state (totalResolved fetchID cnt w)) = Some fetchID"
      by (simp add: totalResolved_def setState_def totalUpdater_def)
    then have "fold ?h (roundResults fetchID cnt (rev rs)) w
        = (totalResolved fetchID cnt w)\<lparr>this_state := (this_state (totalResolved fetchID cnt w))
            \<lparr>tags := tags (this_state (totalResolved fetchID cnt w)) ++ map_of rs\<rparr>\<rparr>"
      by (simp add: roundResults_def fold_tag_results)
    then have "this_state (handleAll pick es w)
        = (this_state w)\<lparr>tags := tags (this_state w) ++ map_of rs, totalValues := Some cnt\<rparr>"
      using True by (simp add: two totalResolved_def setState_def totalUpdater_def)
    with True one show ?thesis by simp
  next
    case False
    then have "this_state (handleAll pick es w) = this_state w"
      by (simp add: two fold_stale_results)
    with False one show ?thesis by simp
  qed
qed

lemma roundResults_safe:
  assumes "mset es = mset (roundResults fetchID cnt rs :: ('l, 'p, 'e) event list)"
  shows "\<forall>e \<in> set es. safeEvent e"
proof -
  from assms have "set es = set (roundResults fetchID cnt rs :: ('l, 'p, 'e) event list)"
    by (rule mset_eq_setD)
  then show ?thesis by (auto simp: roundResults_def)
qed

lemma repeatedWorld_eq:
  "repeatedWorld =
     \<lparr>this_props = reorderedProps,
      this_state = \<lparr>tags = Map.empty, totalValues = None, tagsFetchID = Some 0\<rparr>,
      heap = someHeap, nextSymbol = 1,
      trace = [SetStateReset 0, FetchTagDistribution ''acme'' ''os'' ''path:/discover'' 0,
               FetchTagDistribution ''acme'' ''browser'' ''path:/discover'' 0,
               FetchTagDistribution ''acme'' ''os'' ''path:/discover'' 0,
               FetchTotalCount ''acme'' ''path:/discover'' 0]\<rparr>"
  by (simp add: repeatedWorld_def componentDidMount_def fetchData_eq construct_def
      reorderedProps_def initialState_def)

lemma repeatedWorld_safe: "safeTags (this_props repeatedWorld)"
  by (simp add: repeatedWorld_eq) (simp add: safeTags_def reorderedProps_def objectPrototypeKeys_def)

text \<open>
  C6, as the claim states it, fails: \<open>fetchData\<close> dispatches one fetch for each element of
  \<open>eventView.tags\<close> and the array may name a tag twice. With the tags os, browser, os
  two fetches of os are in flight in one round; when their results \<open>[1]\<close> and \<open>[2]\<close> arrive
  in the two possible orders, with the same other results, the round ends with \<open>[2]\<close> for
  os in one order and \<open>[1]\<close> in the other.
\<close>

theorem repeated_tag_order_matters:
  "fetches (trace repeatedWorld)
     = [FetchTagDistribution ''acme'' ''os'' ''path:/discover'' 0,
        FetchTagDistribution ''acme'' ''browser'' ''path:/discover'' 0,
        FetchTagDistribution ''acme'' ''os'' ''path:/discover'' 0,
        FetchTotalCount ''acme'' ''path:/discover'' 0]
   \<and> mset osOneThenTwo = mset osTwoThenOne
   \<and> finalState (run someUrl fst osOneThenTwo repeatedWorld)
       = Inr \<lparr>tags = [''os'' \<mapsto> \<lparr>topValues = [2]\<rparr>, ''browser'' \<mapsto> \<lparr>topValues = [0]\<rparr>],
              totalValues = Some 15, tagsFetchID = Some 0\<rparr>
   \<and> finalState (run someUrl fst osTwoThenOne repeatedWorld)
       = Inr \<lparr>tags = [''os'' \<mapsto> \<lparr>topValues = [1]\<rparr>, ''browser'' \<mapsto> \<lparr>topValues = [0]\<rparr>],
              totalValues = Some 15, tagsFetchID = Some 0\<rparr>
   \<and> finalState (run someUrl fst osOneThenTwo repeatedWorld)
       \<noteq> finalState (run someUrl fst osTwoThenOne repeatedWorld)"
proof -
  have f: "fetches (trace repeatedWorld)
     = [FetchTagDistribution ''acme'' ''os'' ''path:/discover'' 0,
        FetchTagDistribution ''acme'' ''browser'' ''path:/discover'' 0,
        FetchTagDistribution ''acme'' ''os'' ''path:/discover'' 0,
        FetchTotalCount ''acme'' ''path:/discover'' 0]"
    by (simp add: repeatedWorld_eq fetches_def)
  have m: "mset osOneThenTwo = mset osTwoThenOne"
    by (simp add: osOneThenTwo_def osTwoThenOne_def)
  have a: "finalState (run someUrl fst osOneThenTwo repeatedWorld)
       = Inr \<lparr>tags = [''os'' \<mapsto> \<lparr>topValues = [2]\<rparr>, ''browser'' \<mapsto> \<lparr>topValues = [0]\<rparr>],
              totalValues = Some 15, tagsFetchID = Some 0\<rparr>"
    by (subst finalState_run_safe [OF repeatedWorld_safe])
      (simp_all add: osOneThenTwo_def handleAll_def repeatedWorld_eq tagResolved_def
        totalResolved_def setState_def tagUpdater_def totalUpdater_def)
  have b: "finalState (run someUrl fst osTwoThenOne repeatedWorld)
       = Inr \<lparr>tags = [''os'' \<mapsto> \<lparr>topValues = [1]\<rparr>, ''browser'' \<mapsto> \<lparr>topValues = [0]\<rparr>],
              totalValues = Some 15, tagsFetchID = Some 0\<rparr>"
    by (subst finalState_run_safe [OF repeatedWorld_safe])
      (simp_all add: osTwoThenOne_def handleAll_def repeatedWorld_eq tagResolved_def
        totalResolved_def setState_def tagUpdater_def totalUpdater_def)
  have "[''os'' \<mapsto> \<lparr>topValues = [2::nat]\<rparr>, ''browser'' \<mapsto> \<lparr>topValues = [0]\<rparr>] ''os''
      \<noteq> [''os'' \<mapsto> \<lparr>topValues = [1]\<rparr>, ''browser'' \<mapsto> \<lparr>topValues = [0]\<rparr>] ''os''"
    by simp
  then have "[''os'' \<mapsto> \<lparr>topValues = [2::nat]\<rparr>, ''browser'' \<mapsto> \<lparr>topValues = [0]\<rparr>]
      \<noteq> [''os'' \<mapsto> \<lparr>topValues = [1]\<rparr>, ''browser'' \<mapsto> \<lparr>topValues = [0]\<rparr>]"
    by metis
  then have c: "finalState (run someUrl fst osOneThenTwo repeatedWorld)
       \<noteq> finalState (run someUrl fst osTwoThenOne repeatedWorld)"
    unfolding a b by simp
  from f m a b c show ?thesis by (simp only: simp_thms)
qed

text \<open>
  C6, amended. Let \<open>rs\<close> give one result to each of N different tags, and let \<open>es\<close> and
  \<open>es'\<close> be two orders of the same events: these N results and one total, all of one
  round and with no other event between them. Whenever both orders run without a
  render throwing, they end in the same state and with the same trace; when the round
  is the current one, that state is the state at the beginning with the entry of each
  of the N tags written and the total written, every other entry being as before, and
  when the round is not current it is the state at the beginning. When no tag of the
  event view is called like a property of \<open>Object.prototype\<close>, no render throws and both
  orders do run to that state.
\<close>

theorem merges_commute:
  fixes w :: "('l, 'p, 'q, 'u, 'e) World" and pick :: "'p \<Rightarrow> 'q"
    and g :: "string \<Rightarrow> string \<Rightarrow> 'l \<Rightarrow> 'u"
  assumes d: "distinct (map fst rs)"
    and es: "mset es = mset (roundResults fetchID cnt rs)"
    and es': "mset es' = mset (roundResults fetchID cnt rs)"
  shows "(run g pick es w = Inr w1 \<and> run g pick es' w = Inr w2 \<longrightarrow>
            this_state w1 = this_state w2 \<and> trace w1 = trace w2
            \<and> this_state w1 =
                (if tagsFetchID (this_state w) = Some fetchID
                 then (this_state w)\<lparr>tags := tags (this_state w) ++ map_of rs,
                                      totalValues := Some cnt\<rparr>
                 else this_state w))
    \<and> (safeTags (this_props w) \<longrightarrow>
          finalState (run g pick es w) = finalState (run g pick es' w)
          \<and> finalState (run g pick es w) =
              Inr (if tagsFetchID (this_state w) = Some fetchID
                   then (this_state w)\<lparr>tags := tags (this_state w) ++ map_of rs,
                                        totalValues := Some cnt\<rparr>
                   else this_state w))"
proof -
  note h = handleAll_merges [OF d es es', of pick w]
  from h have h1: "handleAll pick es w = handleAll pick es' w" by simp
  from h have h2: "this_state (handleAll pick es' w) =
      (if tagsFetchID (this_state w) = Some fetchID
       then (this_state w)\<lparr>tags := tags (this_state w) ++ map_of rs, totalValues := Some cnt\<rparr>
       else this_state w)"
    by (simp only: h1 [symmetric])
  have one: "this_state w1 = this_state w2 \<and> trace w1 = trace w2
      \<and> this_state w1 =
          (if tagsFetchID (this_state w) = Some fetchID
           then (this_state w)\<lparr>tags := tags (this_state w) ++ map_of rs, totalValues := Some cnt\<rparr>
           else this_state w)"
    if r1: "run g pick es w = Inr w1" and r2: "run g pick es' w = Inr w2"
    using run_Inr(1,2) [OF r1] run_Inr(1,2) [OF r2] by (simp only: h1 h2 simp_thms)
  have two: "finalState (run g pick es w) = finalState (run g pick es' w)
      \<and> finalState (run g pick es w) =
          Inr (if tagsFetchID (this_state w) = Some fetchID
               then (this_state w)\<lparr>tags := tags (this_state w) ++ map_of rs, totalValues := Some cnt\<rparr>
               else this_state w)"
    if s: "safeTags (this_props w)"
    using finalState_run_safe [OF s roundResults_safe [OF es], of g pick]
      finalState_run_safe [OF s roundResults_safe [OF es'], of g pick]
    by (simp only: h1 h2 simp_thms)
  from one two show ?thesis by blast
qed

lemma mountedWorld_eq:
  "mountedWorld =
     \<lparr>this_props = someProps,
      this_state = \<lparr>tags = Map.empty, totalValues = None, tagsFetchID = Some 0\<rparr>,
      heap = someHeap, nextSymbol = 1,
      trace = [SetStateReset 0, FetchTagDistribution ''acme'' ''browser'' ''path:/discover'' 0,
               FetchTagDistribution ''acme'' ''os'' ''path:/discover'' 0,
               FetchTotalCount ''acme'' ''path:/discover'' 0]\<rparr>"
  by (simp add: mountedWorld_def componentDidMount_def fetchData_eq someWorld_def
      construct_def someProps_def initialState_def)

lemma mountedWorld_safe: "safeTags (this_props mountedWorld)"
  by (simp add: mountedWorld_eq) (simp add: safeTags_def someProps_def objectPrototypeKeys_def)

theorem merges_commute_witness:
  "finalState (run someUrl fst [TagResolved 0 ''os'' \<lparr>topValues = [2]\<rparr>, TotalResolved 0 15,
            TagResolved 0 ''browser'' \<lparr>topValues = [0, 1]\<rparr>] mountedWorld)
   = finalState (run someUrl fst [TagResolved 0 ''browser'' \<lparr>topValues = [0, 1]\<rparr>,
              TagResolved 0 ''os'' \<lparr>topValues = [2]\<rparr>, TotalResolved 0 15] mountedWorld)
   \<and> finalState (run someUrl fst [TagResolved 0 ''os'' \<lparr>topValues = [2]\<rparr>, TotalResolved 0 15,
            TagResolved 0 ''browser'' \<lparr>topValues = [0, 1]\<rparr>] mountedWorld)
     = Inr \<lparr>tags = [''os'' \<mapsto> \<lparr>topValues = [2]\<rparr>, ''browser'' \<mapsto> \<lparr>topValues = [0, 1]\<rparr>],
            totalValues = Some 15, tagsFetchID = Some 0\<rparr>"
proof -
  let ?rs = "[(''browser'', \<lparr>topValues = [0, 1]\<rparr>), (''os'', \<lparr>topValues = [2]\<rparr>)]"
  have d: "distinct (map fst ?rs)"
    by simp
  have m1: "mset [TagResolved 0 ''os'' \<lparr>topValues = [2]\<rparr>, TotalResolved 0 15,
                  TagResolved 0 ''browser'' \<lparr>topValues = [0, 1]\<rparr>]
      = mset (roundResults 0 15 ?rs :: (string, string \<times> string, string) event list)"
    by (simp add: roundResults_def)
  have m2: "mset [TagResolved 0 ''browser'' \<lparr>topValues = [0, 1]\<rparr>,
                  TagResolved 0 ''os'' \<lparr>topValues = [2]\<rparr>, TotalResolved 0 15]
      = mset (roundResults 0 15 ?rs :: (string, string \<times> string, string) event list)"
    by (simp add: roundResults_def)
  have e: "(if tagsFetchID (this_state mountedWorld) = Some 0
      then (this_state mountedWorld)
        \<lparr>tags := tags (this_state mountedWorld) ++ map_of ?rs, totalValues := Some 15\<rparr>
      else this_state mountedWorld)
      = \<lparr>tags = [''os'' \<mapsto> \<lparr>topValues = [2]\<rparr>, ''browser'' \<mapsto> \<lparr>topValues = [0, 1]\<rparr>],
         totalValues = Some 15, tagsFetchID = Some 0\<rparr>"
    by (simp add: mountedWorld_eq)
  from merges_commute [OF d m1 m2, of someUrl fst mountedWorld] mountedWorld_safe
  show ?thesis
    unfolding e by blast
qed

section \<open>The Symbols of the rounds\<close>

lemma minted_append [simp]: "minted (xs @ ys) = minted xs @ minted ys"
  by (simp add: minted_def)

lemma minted_Cons [simp]: "minted (c # cs) = mintedBy c @ minted cs"
  by (simp add: minted_def)

lemma minted_Nil [simp]: "minted [] = []"
  by (simp add: minted_def)

lemma minted_tag_fetches [simp]:
  "minted (map (\<lambda>tag. FetchTagDistribution slug tag q s) ts) = []"
  by (induction ts) simp_all

lemma minted_fetchData:
  "minted (trace (fetchData pick w)) = minted (trace w) @ [nextSymbol w]"
  by (simp add: fetchData_eq)

lemma handle_cases:
  "(handle pick e w = fetchData pick (w\<lparr>this_props := this_props (handle pick e w)\<rparr>)
    \<and> minted (trace (handle pick e w)) = minted (trace w) @ [nextSymbol w])
   \<or> (minted (trace (handle pick e w)) = minted (trace w)
       \<and> nextSymbol (handle pick e w) = nextSymbol w
       \<and> tagsFetchID (this_state (handle pick e w)) = tagsFetchID (this_state w)
       \<and> (\<not> mergesTotal (tagsFetchID (this_state w)) e \<longrightarrow>
             totalValues (this_state (handle pick e w)) = totalValues (this_state w))
       \<and> (\<forall>tag. \<not> mergesTag (tagsFetchID (this_state w)) tag e \<longrightarrow>
             tags (this_state (handle pick e w)) tag = tags (this_state w) tag))"
  by (cases e)
    (auto simp: componentDidMount_def componentDidUpdate_def fetchData_eq tagResolved_def
      totalResolved_def fetchRejected_def captureException_def record_call_def setState_def
      tagUpdater_def totalUpdater_def)

lemma roundInvariant_fetchData:
  assumes "roundInvariant w"
  shows "roundInvariant (fetchData pick w)"
  using assms by (auto simp: roundInvariant_def fetchData_eq less_Suc_eq)

lemma roundInvariant_props: "roundInvariant (w\<lparr>this_props := p\<rparr>) = roundInvariant w"
  by (simp add: roundInvariant_def)

lemma roundInvariant_handle:
  assumes "roundInvariant w"
  shows "roundInvariant (handle pick e w)"
proof -
  from handle_cases [of pick e w] show ?thesis
  proof (elim disjE conjE)
    assume "handle pick e w = fetchData pick (w\<lparr>this_props := this_props (handle pick e w)\<rparr>)"
    moreover have "roundInvariant (fetchData pick (w\<lparr>this_props := this_props (handle pick e w)\<rparr>))"
      using assms by (intro roundInvariant_fetchData) (simp add: roundInvariant_props)
    ultimately show ?thesis by simp
  next
    assume "minted (trace (handle pick e w)) = minted (trace w)"
      and "nextSymbol (handle pick e w) = nextSymbol w"
      and "tagsFetchID (this_state (handle pick e w)) = tagsFetchID (this_state w)"
    with assms show ?thesis by (simp add: roundInvariant_def)
  qed
qed

lemma roundInvariant_handleAll:
  "roundInvariant w \<Longrightarrow> roundInvariant (handleAll pick es w)"
  unfolding handleAll_def by (induction es arbitrary: w) (simp_all add: roundInvariant_handle)

lemma roundInvariant_construct: "roundInvariant (construct p h n)"
  by (simp add: roundInvariant_def construct_def initialState_def)

lemma minted_handle_prefix: "\<exists>ms. minted (trace (handle pick e w)) = minted (trace w) @ ms"
  using handle_cases [of pick e w] by auto

lemma minted_handleAll_prefix: "\<exists>ms. minted (trace (handleAll pick es w)) = minted (trace w) @ ms"
  unfolding handleAll_def
proof (induction es arbitrary: w)
  case Nil
  show ?case by simp
next
  case (Cons e es)
  from minted_handle_prefix [of pick e w] obtain ms
    where "minted (trace (handle pick e w)) = minted (trace w) @ ms" ..
  moreover from Cons [of "handle pick e w"] obtain ms'
    where "minted (trace (fold (handle pick) es (handle pick e w)))
      = minted (trace (handle pick e w)) @ ms'" ..
  ultimately show ?case by simp
qed

lemma minted_after_Mounted:
  "Mounted \<in> set es \<Longrightarrow> minted (trace (handleAll pick es w)) \<noteq> []"
proof (induction es arbitrary: w)
  case Nil
  then show ?case by simp
next
  case (Cons e es)
  have r: "handleAll pick (e # es) w = handleAll pick es (handle pick e w)"
    by (simp add: handleAll_def)
  show ?case
  proof (cases "e = Mounted")
    case True
    then have "minted (trace (handle pick e w)) = minted (trace w) @ [nextSymbol w]"
      by (simp add: componentDidMount_def minted_fetchData)
    with minted_handleAll_prefix [of pick es "handle pick e w"] show ?thesis
      by (auto simp: r)
  next
    case False
    with Cons.prems have "Mounted \<in> set es" by simp
    from Cons.IH [OF this] show ?thesis by (simp add: r)
  qed
qed

lemma rendered_initial:
  assumes "totalValues (this_state w) = None"
  shows "rendered g w = Inr w"
proof -
  have "\<exists>ms. renderTags g ts w = Inr (ms, w)" for ts
    by (induction ts) (auto simp: renderTag_def Let_def isLoading_def assms)
  then obtain ms where "render g w = Inr (ms, w)"
    unfolding render_def by blast
  then show ?thesis
    by (simp add: rendered_def)
qed

text \<open>
  C8, as the claim states it, fails: the component as constructed, which is what its
  first render sees, has started no round and its \<open>tagsFetchID\<close> is \<open>undefined\<close>, so that no
  round token is current at that time.
\<close>

theorem no_token_before_first_round:
  "run someUrl fst [] someWorld = Inr someWorld
   \<and> rendered someUrl someWorld = Inr someWorld
   \<and> minted (trace someWorld) = []
   \<and> tagsFetchID (this_state someWorld) = None"
proof -
  have "totalValues (this_state someWorld) = None"
    by (simp add: someWorld_def construct_def initialState_def)
  from rendered_initial [OF this] show ?thesis
    by (simp add: someWorld_def construct_def initialState_def)
qed

text \<open>
  C8, amended. In the world \<open>w\<close> that any run of events reaches from the component as
  constructed, no render having thrown: the Symbols of the rounds started so far differ from one another; the
  Symbol that the next call of \<open>fetchData\<close> creates is none of them, and after that call
  they still differ from one another; the state holds at most one Symbol,
  \<open>tagsFetchID\<close>, which after a call of \<open>fetchData\<close> is the Symbol of that call: it is
  \<open>undefined\<close> as long as no round has started, and the Symbol of the last round started
  from then on, which is at any time after \<open>componentDidMount\<close>.
\<close>

theorem round_tokens_distinct:
  fixes pick :: "'p \<Rightarrow> 'q" and p :: "('l, 'p) Props" and h :: "addr \<Rightarrow> 'u TagTopValue"
    and es :: "('l, 'p, 'e) event list" and n :: nat
    and w :: "('l, 'p, 'q, 'u, 'e) World"
  assumes "run g pick es (construct p h n) = Inr w"
  shows "distinct (minted (trace w))
    \<and> nextSymbol w \<notin> set (minted (trace w))
    \<and> minted (trace (fetchData pick w)) = minted (trace w) @ [nextSymbol w]
    \<and> distinct (minted (trace (fetchData pick w)))
    \<and> tagsFetchID (this_state (fetchData pick w)) = Some (nextSymbol w)
    \<and> tagsFetchID (this_state w)
        = (if minted (trace w) = [] then None else Some (last (minted (trace w))))
    \<and> (Mounted \<in> set es \<longrightarrow>
          minted (trace w) \<noteq> [] \<and> tagsFetchID (this_state w) = Some (last (minted (trace w))))"
proof -
  let ?v = "handleAll pick es (construct p h n) :: ('l, 'p, 'q, 'u, 'e) World"
  have "roundInvariant ?v"
    by (rule roundInvariant_handleAll) (rule roundInvariant_construct)
  with run_Inr [OF assms] have i: "roundInvariant w"
    by (simp add: roundInvariant_def)
  then have "roundInvariant (fetchData pick w)"
    by (rule roundInvariant_fetchData)
  moreover have "minted (trace w) \<noteq> []" if "Mounted \<in> set es"
    using minted_after_Mounted [OF that, of pick "construct p h n"] run_Inr(2) [OF assms]
    by simp
  ultimately show ?thesis using i
    by (auto simp: roundInvariant_def minted_fetchData fetchData_eq)
qed

theorem round_tokens_distinct_witness:
  "Mounted \<in> set threeRounds
   \<and> finalState (run someUrl fst threeRounds (construct someProps someHeap 0
        :: (string, string \<times> string, string, string, string) World))
     = Inr \<lparr>tags = Map.empty, totalValues = None, tagsFetchID = Some 2\<rparr>"
proof -
  let ?c = "construct someProps someHeap 0 :: (string, string \<times> string, string, string, string) World"
  have s: "safeTags (this_props ?c)"
    by (simp add: construct_def safeTags_def someProps_def objectPrototypeKeys_def)
  have e: "\<forall>e \<in> set threeRounds. safeEvent e"
    by (simp add: threeRounds_def safeTags_def someProps_def fewerTagsProps_def
        objectPrototypeKeys_def)
  from run_safe [OF s e] obtain w where w: "run someUrl fst threeRounds ?c = Inr w" ..
  have m: "minted (trace (handleAll fst threeRounds ?c)) = [0, 1, 2]"
    by (simp add: threeRounds_def handleAll_def componentDidMount_def componentDidUpdate_def
      tagsChanged_def fetchData_eq construct_def someProps_def fewerTagsProps_def
      tagResolved_def setState_def)
  have st: "tags (this_state (handleAll fst threeRounds ?c)) = Map.empty
      \<and> totalValues (this_state (handleAll fst threeRounds ?c)) = None"
    by (simp add: threeRounds_def handleAll_def componentDidMount_def componentDidUpdate_def
      tagsChanged_def fetchData_eq construct_def someProps_def fewerTagsProps_def
      tagResolved_def setState_def tagUpdater_def)
  have mt: "Mounted \<in> set threeRounds"
    by (simp add: threeRounds_def)
  from round_tokens_distinct [OF w] mt run_Inr(1,2) [OF w] m st
  have "this_state w = \<lparr>tags = Map.empty, totalValues = None, tagsFetchID = Some 2\<rparr>"
    by (cases "this_state w") simp
  with w mt show ?thesis by (simp add: finalState_def)
qed

section \<open>Failures of the transport\<close>



lemma captured_append [simp]: "captured (xs @ ys) = captured xs @ captured ys"
  by (simp add: captured_def)

lemma fetches_append [simp]: "fetches (xs @ ys) = fetches xs @ fetches ys"
  by (simp add: fetches_def)

lemma fetchRejected_eq:
  "fetchRejected fetchID err w = w\<lparr>trace := trace w @ [CaptureException err]\<rparr>"
  by (simp add: fetchRejected_def captureException_def record_call_def)

lemma staleWorld_eq:
  "staleWorld =
     \<lparr>this_props = fewerTagsProps,
      this_state = \<lparr>tags = Map.empty, totalValues = None, tagsFetchID = Some 1\<rparr>,
      heap = someHeap, nextSymbol = 2,
      trace = [SetStateReset 0, FetchTagDistribution ''acme'' ''browser'' ''path:/discover'' 0,
               FetchTagDistribution ''acme'' ''os'' ''path:/discover'' 0,
               FetchTotalCount ''acme'' ''path:/discover'' 0,
               SetStateReset 1, FetchTagDistribution ''acme'' ''browser'' ''path:/discover'' 1,
               FetchTotalCount ''acme'' ''path:/discover'' 1]\<rparr>"
  by (simp add: staleWorld_def mountedWorld_eq componentDidUpdate_def
      tagsChanged_def fetchData_eq someProps_def fewerTagsProps_def)






text \<open>
  C10. A fetch that rejects is reported whatever Symbol its continuation holds and
  whatever Symbol the state holds; in particular when the two differ. A fetch that
  resolves when the two differ changes nothing and reports nothing.
\<close>

theorem failure_reported_even_when_stale:
  "tagFetchSettled fetchID tag (Inl err) w = Inr (w\<lparr>trace := trace w @ [CaptureException err]\<rparr>)
   \<and> totalFetchSettled fetchID (Inl err) w = Inr (w\<lparr>trace := trace w @ [CaptureException err]\<rparr>)
   \<and> captured (trace (fetchRejected fetchID err w)) = captured (trace w) @ [err]
   \<and> (tagsFetchID (this_state w) \<noteq> Some fetchID \<longrightarrow>
        captured (trace (fetchRejected fetchID err w)) = captured (trace w) @ [err]
        \<and> tagFetchSettled fetchID tag (Inr val) w = Inr w
        \<and> totalFetchSettled fetchID (Inr cnt) w = Inr w
        \<and> captured (trace (tagResolved fetchID tag val w)) = captured (trace w)
        \<and> captured (trace (totalResolved fetchID cnt w)) = captured (trace w))"
  by (simp add: tagFetchSettled_def totalFetchSettled_def fetchRejected_eq tagResolved_def
      totalResolved_def setState_def tagUpdater_def totalUpdater_def captured_def)

theorem failure_reported_even_when_stale_witness:
  "tagsFetchID (this_state staleWorld) = Some 1
   \<and> captured (trace staleWorld) = []
   \<and> captured (trace (fetchRejected 0 ''timeout'' staleWorld)) = [''timeout'']
   \<and> tagFetchSettled 0 ''os'' (Inr \<lparr>topValues = [2]\<rparr>) staleWorld = Inr staleWorld
   \<and> totalFetchSettled 0 (Inr 15) staleWorld = Inr staleWorld"
proof -
  have s: "tagsFetchID (this_state staleWorld) = Some 1" and c: "captured (trace staleWorld) = []"
    by (simp_all add: staleWorld_eq captured_def)
  from failure_reported_even_when_stale [of 0 "''os''" "''timeout''" staleWorld
      "\<lparr>topValues = [2]\<rparr>" 15] s c
  show ?thesis
    by simp
qed

end
